theory Spec2Isabelle
  imports Complex_Main
begin

section \<open>Strings\<close>

text \<open>
  Text is a list of 8-bit characters: the model covers recognised text whose code points
  lie below 256. \<open>is_space\<close>, \<open>lower\<close> and \<open>upper_code\<close> are the restrictions of Python's
  \<^verbatim>\<open>str.isspace\<close>, \<^verbatim>\<open>str.lower\<close> and the simple upper-case mapping to that range.
\<close>

abbreviation bs :: char where
  "bs \<equiv> CHR 0x5C"

definition is_space :: "char \<Rightarrow> bool" where
  "is_space c = (let n = (of_char c :: nat) in
     (9 \<le> n \<and> n \<le> 13) \<or> (28 \<le> n \<and> n \<le> 32) \<or> n = 133 \<or> n = 160)"

definition strip :: "string \<Rightarrow> string" where
  "strip s = rev (dropWhile is_space (rev (dropWhile is_space s)))"

definition lower_char :: "char \<Rightarrow> char" where
  "lower_char c = (let n = (of_char c :: nat) in
     if (65 \<le> n \<and> n \<le> 90) \<or> (192 \<le> n \<and> n \<le> 222 \<and> n \<noteq> 215)
     then char_of (n + 32) else c)"

definition lower :: "string \<Rightarrow> string" where
  "lower s = map lower_char s"

text \<open>The code point of the upper-case form; for two characters it lies above 255.\<close>

definition upper_code :: "char \<Rightarrow> nat" where
  "upper_code c = (let n = (of_char c :: nat) in
     if (97 \<le> n \<and> n \<le> 122) \<or> (224 \<le> n \<and> n \<le> 254 \<and> n \<noteq> 247) then n - 32
     else if n = 255 then 376
     else if n = 181 then 924
     else n)"

fun starts_with :: "string \<Rightarrow> string \<Rightarrow> bool" where
  "starts_with [] s = True"
| "starts_with (p # ps) [] = False"
| "starts_with (p # ps) (c # cs) = (p = c \<and> starts_with ps cs)"

text \<open>\<open>contains sub s\<close> is Python's \<^verbatim>\<open>sub in s\<close> on strings.\<close>

fun contains :: "string \<Rightarrow> string \<Rightarrow> bool" where
  "contains sub [] = (sub = [])"
| "contains sub (c # cs) = (starts_with sub (c # cs) \<or> contains sub cs)"

text \<open>\<^verbatim>\<open>" ".join(parts)\<close>\<close>

fun join_space :: "string list \<Rightarrow> string" where
  "join_space [] = []"
| "join_space [p] = p"
| "join_space (p # q # ps) = p @ CHR '' '' # join_space (q # ps)"

text \<open>\<^verbatim>\<open>s.replace('$', '')\<close>\<close>

definition strip_dollar :: "string \<Rightarrow> string" where
  "strip_dollar s = filter (\<lambda>c. c \<noteq> CHR ''$'') s"

section \<open>Exceptions\<close>

text \<open>
  The exceptions that the modelled code can raise. \<open>NotModelled\<close> is not a Python
  exception: the pattern parser below returns it for pattern syntax outside the fragment
  that the program's patterns use.
\<close>

datatype re_error =
    NothingToRepeat | MultipleRepeat | BadEscape | UnterminatedSet | BadRange | MinGreaterMax

datatype exn = ReError re_error | ValueError | KeyError | NotModelled

section \<open>The pattern language of \<^verbatim>\<open>re\<close>\<close>

text \<open>
  The program calls \<^verbatim>\<open>re.findall(pattern, row_text, re.IGNORECASE)\<close> and
  \<^verbatim>\<open>re.match(pattern, text)\<close>. Both compile the pattern first and raise
  \<^verbatim>\<open>re.error\<close> when it is malformed. The fragment modelled here has literals,
  \<^verbatim>\<open>.\<close>, \<^verbatim>\<open>^\<close>, \<^verbatim>\<open>$\<close>, escaped punctuation, character sets with
  ranges, and the greedy repeats \<^verbatim>\<open>? * + {m} {m,} {m,n} {,n}\<close>; it has no groups,
  alternation, letter or digit escapes, or lazy repeats.
\<close>

datatype set_item = SetLiteral char | SetRange char char

datatype atom = Literal char | AnyChar | InSet bool "set_item list"

datatype re_op = One atom | AtBeginning | AtEnd | MaxRepeat nat "nat option" atom

datatype mode =
    Top
  | Escape
  | SetStart
  | SetOpen bool "set_item list"
  | SetEscape bool "set_item list"
  | SetHave bool "set_item list" char
  | SetDash bool "set_item list" char
  | SetDashEscape bool "set_item list" char
  | BraceLo string
  | BraceHi string string

definition is_digit :: "char \<Rightarrow> bool" where
  "is_digit c = (let n = (of_char c :: nat) in 48 \<le> n \<and> n \<le> 57)"

definition is_ascii_letter :: "char \<Rightarrow> bool" where
  "is_ascii_letter c = (let n = (of_char c :: nat) in (65 \<le> n \<and> n \<le> 90) \<or> (97 \<le> n \<and> n \<le> 122))"

definition int_of_digits :: "string \<Rightarrow> nat" where
  "int_of_digits ds = foldl (\<lambda>n d. 10 * n + (of_char d - 48)) 0 ds"

text \<open>
  ``figure out which item to repeat'': a repeat applies to the last item; there must be
  one, it must not be a position assertion, and it must not itself be a repeat.
\<close>

fun repeat_last :: "nat \<Rightarrow> nat option \<Rightarrow> re_op list \<Rightarrow> exn + re_op list" where
  "repeat_last lo hi (One a # rops) = Inr (MaxRepeat lo hi a # rops)"
| "repeat_last lo hi (MaxRepeat l h a # rops) = Inl (ReError MultipleRepeat)"
| "repeat_last lo hi rops = Inl (ReError NothingToRepeat)"

definition after_repeat :: "re_op list \<Rightarrow> bool" where
  "after_repeat rops = (case rops of MaxRepeat l h a # r \<Rightarrow> True | _ \<Rightarrow> False)"

text \<open>
  The closing brace of a repeat \<^verbatim>\<open>{lo,hi}\<close>; \<open>hi\<close> is \<open>None\<close> when there was no comma.
  \<^verbatim>\<open>{}\<close> (a literal brace in Python) and counts of more than nine digits (Python
  raises \<^verbatim>\<open>OverflowError\<close> from 4294967295 on) are left out of the fragment.
\<close>

definition close_brace :: "string \<Rightarrow> string option \<Rightarrow> re_op list \<Rightarrow> exn + re_op list \<times> mode" where
  "close_brace lo hi rops =
     (let mn = (if lo = [] then 0 else int_of_digits lo);
          mx = (case hi of None \<Rightarrow> Some mn
                | Some h \<Rightarrow> if h = [] then None else Some (int_of_digits h))
      in if hi = None \<and> lo = [] then Inl NotModelled
         else if 9 < length lo \<or> (case hi of None \<Rightarrow> False | Some h \<Rightarrow> 9 < length h)
              then Inl NotModelled
         else if (case mx of None \<Rightarrow> False | Some m \<Rightarrow> m < mn)
              then Inl (ReError MinGreaterMax)
         else case repeat_last mn mx rops of
                Inl e \<Rightarrow> Inl e
              | Inr rops' \<Rightarrow> Inr (rops', Top))"

text \<open>The set parser at the top of its loop: \<open>c\<close> closes the set or starts an element.\<close>

definition feed_set :: "re_op list \<Rightarrow> bool \<Rightarrow> set_item list \<Rightarrow> char \<Rightarrow> exn + re_op list \<times> mode" where
  "feed_set rops neg items c =
     (if c = CHR '']'' \<and> items \<noteq> [] then Inr (One (InSet neg items) # rops, Top)
      else if c = bs then Inr (rops, SetEscape neg items)
      else Inr (rops, SetHave neg items c))"

text \<open>
  One step of the parser: the items read so far (last one first), the mode, and the next
  character of the pattern.
\<close>

fun feed :: "re_op list \<Rightarrow> mode \<Rightarrow> char \<Rightarrow> exn + re_op list \<times> mode" where
  "feed rops Top c =
     (if c = bs then Inr (rops, Escape)
      else if c = CHR ''['' then Inr (rops, SetStart)
      else if c = CHR ''{'' then Inr (rops, BraceLo [])
      else if (c = CHR ''?'' \<or> c = CHR ''+'') \<and> after_repeat rops then Inl NotModelled
      else if c = CHR ''?'' then
        (case repeat_last 0 (Some 1) rops of Inl e \<Rightarrow> Inl e | Inr r \<Rightarrow> Inr (r, Top))
      else if c = CHR ''*'' then
        (case repeat_last 0 None rops of Inl e \<Rightarrow> Inl e | Inr r \<Rightarrow> Inr (r, Top))
      else if c = CHR ''+'' then
        (case repeat_last 1 None rops of Inl e \<Rightarrow> Inl e | Inr r \<Rightarrow> Inr (r, Top))
      else if c = CHR ''.'' then Inr (One AnyChar # rops, Top)
      else if c = CHR ''^'' then Inr (AtBeginning # rops, Top)
      else if c = CHR ''$'' then Inr (AtEnd # rops, Top)
      else if c = CHR ''('' \<or> c = CHR '')'' \<or> c = CHR ''|'' then Inl NotModelled
      else Inr (One (Literal c) # rops, Top))"
| "feed rops Escape c =
     (if is_ascii_letter c \<or> is_digit c then Inl NotModelled
      else Inr (One (Literal c) # rops, Top))"
| "feed rops SetStart c =
     (if c = CHR ''^'' then Inr (rops, SetOpen True [])
      else feed_set rops False [] c)"
| "feed rops (SetOpen neg items) c = feed_set rops neg items c"
| "feed rops (SetEscape neg items) c =
     (if is_ascii_letter c \<or> is_digit c then Inl NotModelled
      else Inr (rops, SetHave neg items c))"
| "feed rops (SetHave neg items c1) c =
     (if c = CHR ''-'' then Inr (rops, SetDash neg items c1)
      else feed_set rops neg (items @ [SetLiteral c1]) c)"
| "feed rops (SetDash neg items c1) c =
     (if c = CHR '']'' then
        Inr (One (InSet neg (items @ [SetLiteral c1, SetLiteral (CHR ''-'')])) # rops, Top)
      else if c = bs then Inr (rops, SetDashEscape neg items c1)
      else if (of_char c :: nat) < of_char c1 then Inl (ReError BadRange)
      else Inr (rops, SetOpen neg (items @ [SetRange c1 c])))"
| "feed rops (SetDashEscape neg items c1) c =
     (if is_ascii_letter c \<or> is_digit c then Inl NotModelled
      else if (of_char c :: nat) < of_char c1 then Inl (ReError BadRange)
      else Inr (rops, SetOpen neg (items @ [SetRange c1 c])))"
| "feed rops (BraceLo lo) c =
     (if is_digit c then Inr (rops, BraceLo (lo @ [c]))
      else if c = CHR '','' then Inr (rops, BraceHi lo [])
      else if c = CHR ''}'' then close_brace lo None rops
      else Inl NotModelled)"
| "feed rops (BraceHi lo hi) c =
     (if is_digit c then Inr (rops, BraceHi lo (hi @ [c]))
      else if c = CHR ''}'' then close_brace lo (Some hi) rops
      else Inl NotModelled)"

fun parse :: "re_op list \<Rightarrow> mode \<Rightarrow> string \<Rightarrow> exn + re_op list" where
  "parse rops Top [] = Inr (rev rops)"
| "parse rops Escape [] = Inl (ReError BadEscape)"
| "parse rops (BraceLo lo) [] = Inl NotModelled"
| "parse rops (BraceHi lo hi) [] = Inl NotModelled"
| "parse rops m [] = Inl (ReError UnterminatedSet)"
| "parse rops m (c # cs) =
     (case feed rops m c of Inl e \<Rightarrow> Inl e | Inr (rops', m') \<Rightarrow> parse rops' m' cs)"

definition compile :: "string \<Rightarrow> exn + re_op list" where
  "compile pattern = parse [] Top pattern"

subsection \<open>Matching\<close>

definition in_item :: "bool \<Rightarrow> char \<Rightarrow> set_item \<Rightarrow> bool" where
  "in_item ic ch it =
     (case it of
        SetLiteral l \<Rightarrow> if ic then lower_char ch = lower_char l else ch = l
      | SetRange lo hi \<Rightarrow>
          if ic then
            (let l = lower_char ch in
             ((of_char lo :: nat) \<le> of_char l \<and> (of_char l :: nat) \<le> of_char hi) \<or>
             (of_char lo \<le> upper_code l \<and> upper_code l \<le> of_char hi))
          else (of_char lo :: nat) \<le> of_char ch \<and> (of_char ch :: nat) \<le> of_char hi)"

text \<open>Without the \<^verbatim>\<open>DOTALL\<close> flag, \<^verbatim>\<open>.\<close> matches anything but a newline.\<close>

definition atom_match :: "bool \<Rightarrow> atom \<Rightarrow> char \<Rightarrow> bool" where
  "atom_match ic a ch =
     (case a of
        Literal l \<Rightarrow> if ic then lower_char ch = lower_char l else ch = l
      | AnyChar \<Rightarrow> ch \<noteq> CHR 0x0A
      | InSet neg items \<Rightarrow> (list_ex (in_item ic ch) items \<noteq> neg))"

text \<open>
  \<open>match_ops ic ops start s\<close> matches the items at the head of \<open>s\<close> and returns what is left
  of \<open>s\<close> after the match; \<open>start\<close> tells whether \<open>s\<close> is the whole subject string. A repeat
  is greedy: it takes a character when it can and falls back to stopping when the rest of
  the pattern then fails.
\<close>

fun match_ops :: "bool \<Rightarrow> re_op list \<Rightarrow> bool \<Rightarrow> string \<Rightarrow> string option" where
  "match_ops ic [] start s = Some s"
| "match_ops ic (One a # ops) start [] = None"
| "match_ops ic (One a # ops) start (c # cs) =
     (if atom_match ic a c then match_ops ic ops False cs else None)"
| "match_ops ic (AtBeginning # ops) start s =
     (if start then match_ops ic ops start s else None)"
| "match_ops ic (AtEnd # ops) start s =
     (if s = [] \<or> s = [CHR 0x0A] then match_ops ic ops start s else None)"
| "match_ops ic (MaxRepeat lo hi a # ops) start [] =
     (if lo = 0 then match_ops ic ops start [] else None)"
| "match_ops ic (MaxRepeat lo hi a # ops) start (c # cs) =
     (case (if hi \<noteq> Some 0 \<and> atom_match ic a c
            then match_ops ic (MaxRepeat (lo - 1) (map_option (\<lambda>h. h - 1) hi) a # ops) False cs
            else None) of
        Some r \<Rightarrow> Some r
      | None \<Rightarrow> if lo = 0 then match_ops ic ops start (c # cs) else None)"

text \<open>
  The scan of \<^verbatim>\<open>findall\<close>: matches are taken left to right and do not overlap; after an
  empty match the scan moves on by one character.
\<close>

function scan :: "bool \<Rightarrow> re_op list \<Rightarrow> bool \<Rightarrow> string \<Rightarrow> string list" where
  "scan ic ops start [] = (case match_ops ic ops start [] of None \<Rightarrow> [] | Some r \<Rightarrow> [[]])"
| "scan ic ops start (c # cs) =
     (case match_ops ic ops start (c # cs) of
        None \<Rightarrow> scan ic ops False cs
      | Some r \<Rightarrow>
          (let n = length (c # cs) - length r in
           if n = 0 then [] # scan ic ops False cs
           else take n (c # cs) # scan ic ops False (drop n (c # cs))))"
  by pat_completeness auto
termination
  by (relation "measure (\<lambda>(ic, ops, start, s). length s)") auto

definition findall :: "string \<Rightarrow> string \<Rightarrow> bool \<Rightarrow> exn + string list" where
  "findall pattern s ic =
     (case compile pattern of Inl e \<Rightarrow> Inl e | Inr ops \<Rightarrow> Inr (scan ic ops True s))"

text \<open>\<^verbatim>\<open>re.match(pattern, s)\<close>, read for its truth value.\<close>

definition re_match :: "string \<Rightarrow> string \<Rightarrow> exn + bool" where
  "re_match pattern s =
     (case compile pattern of Inl e \<Rightarrow> Inl e | Inr ops \<Rightarrow> Inr (match_ops False ops True s \<noteq> None))"

section \<open>Data model\<close>

text \<open>
  \<^verbatim>\<open>ocr_data\<close> is a dictionary of parallel lists (\<^verbatim>\<open>text\<close>, \<^verbatim>\<open>left\<close>, \<^verbatim>\<open>top\<close>,
  \<^verbatim>\<open>width\<close>, \<^verbatim>\<open>height\<close>, \<^verbatim>\<open>conf\<close>), one entry per recognised token and all of one
  length; it is modelled as the list of its entries. The dictionaries that
  \<^verbatim>\<open>extract_line_items_from_region\<close> builds for the words of the table hold the same six
  values (\<^verbatim>\<open>x\<close> is \<^verbatim>\<open>left\<close>, \<^verbatim>\<open>y\<close> is \<^verbatim>\<open>top\<close>) and use the same record.
  The width of a box is a length, and recognition reports none below zero: it is a natural
  number. The other values are integers.
\<close>

record ocr_word =
  w_text :: string
  w_left :: int
  w_top :: int
  w_width :: nat
  w_height :: int
  w_conf :: int

text \<open>
  \<^verbatim>\<open>LineItem\<close>; \<^verbatim>\<open>bounding_box\<close> is never assigned and is left out. The confidence is a
  float in the source; the values it takes are \<open>k / 5\<close> for \<open>k \<le> 5\<close>, modelled exactly.
\<close>

record LineItem =
  item_number :: string
  description :: string
  quantity :: string
  unit_price :: string
  total_price :: string
  confidence :: rat

record TableRegion =
  r_x :: int
  r_y :: int
  r_width :: int
  r_height :: int
  r_confidence :: rat

record vendor_pattern =
  table_start_keywords :: "string list"
  table_end_keywords :: "string list"
  column_patterns :: "(string \<times> string) list"

section \<open>The vendor patterns\<close>

text \<open>
  The patterns are raw strings in which every backslash is written twice, as in
  \<^verbatim>\<open>r"\\b[A-Z0-9-]{3,10}\\b"\<close>; \<open>bb\<close> is that pair of backslashes. A dictionary keeps
  its insertion order, so \<^verbatim>\<open>column_patterns\<close> is a list of pairs.
\<close>

abbreviation bb :: string where
  "bb \<equiv> [CHR 0x5C, CHR 0x5C]"

definition acme :: vendor_pattern where
  "acme = \<lparr>
     table_start_keywords = [''Item'', ''Description'', ''Qty'', ''Price'', ''Total''],
     table_end_keywords = [''Subtotal'', ''Tax'', ''Total Due''],
     column_patterns = [
       (''item_number'', bb @ ''b'' @ bb @ ''d{3,6}'' @ bb @ ''b''),
       (''description'', ''[A-Za-z][A-Za-z'' @ bb @ ''s-]{5,50}''),
       (''quantity'', bb @ ''b'' @ bb @ ''d{1,3}'' @ bb @ ''b''),
       (''unit_price'', bb @ ''$?'' @ bb @ ''d+'' @ bb @ ''.'' @ bb @ ''d{2}''),
       (''total_price'', bb @ ''$?'' @ bb @ ''d+'' @ bb @ ''.'' @ bb @ ''d{2}'')] \<rparr>"

definition techsupply :: vendor_pattern where
  "techsupply = \<lparr>
     table_start_keywords = [''Part#'', ''Item'', ''Qty'', ''Unit Cost'', ''Amount''],
     table_end_keywords = [''Subtotal'', ''Sales Tax'', ''Total''],
     column_patterns = [
       (''item_number'', ''TS-'' @ bb @ ''d{4,}''),
       (''description'', ''[A-Za-z][A-Za-z'' @ bb @ ''s-]{10,60}''),
       (''quantity'', bb @ ''b'' @ bb @ ''d{1,4}'' @ bb @ ''b''),
       (''unit_price'', bb @ ''$'' @ bb @ ''d+'' @ bb @ ''.'' @ bb @ ''d{2}''),
       (''total_price'', bb @ ''$'' @ bb @ ''d+'' @ bb @ ''.'' @ bb @ ''d{2}'')] \<rparr>"

definition generic :: vendor_pattern where
  "generic = \<lparr>
     table_start_keywords =
       [''Item'', ''Description'', ''Quantity'', ''Price'', ''Amount'', ''Total''],
     table_end_keywords = [''Subtotal'', ''Tax'', ''Total'', ''Amount Due''],
     column_patterns = [
       (''item_number'', bb @ ''b[A-Z0-9-]{3,10}'' @ bb @ ''b''),
       (''description'', ''[A-Za-z][A-Za-z'' @ bb @ ''s-]{5,50}''),
       (''quantity'', bb @ ''b'' @ bb @ ''d{1,4}'' @ bb @ ''b''),
       (''unit_price'', bb @ ''$?'' @ bb @ ''d+'' @ bb @ ''.'' @ bb @ ''d{2}''),
       (''total_price'', bb @ ''$?'' @ bb @ ''d+'' @ bb @ ''.'' @ bb @ ''d{2}'')] \<rparr>"

definition load_vendor_patterns :: "(string \<times> vendor_pattern) list" where
  "load_vendor_patterns = [(''acme'', acme), (''techsupply'', techsupply), (''generic'', generic)]"

text \<open>\<^verbatim>\<open>self.vendor_patterns[vendor_type]\<close>; a missing key raises \<^verbatim>\<open>KeyError\<close>.\<close>

definition vendor_patterns :: "string \<Rightarrow> exn + vendor_pattern" where
  "vendor_patterns vendor_type =
     (case map_of load_vendor_patterns vendor_type of
        None \<Rightarrow> Inl KeyError
      | Some patterns \<Rightarrow> Inr patterns)"

section \<open>\<^verbatim>\<open>detect_table_region\<close>\<close>

text \<open>\<^verbatim>\<open>max\<close> and \<^verbatim>\<open>min\<close> of a list raise \<^verbatim>\<open>ValueError\<close> on the empty list.\<close>

fun py_max :: "int list \<Rightarrow> exn + int" where
  "py_max [] = Inl ValueError"
| "py_max (v # vs) = Inr (fold max vs v)"

fun py_min :: "int list \<Rightarrow> exn + int" where
  "py_min [] = Inl ValueError"
| "py_min (v # vs) = Inr (fold min vs v)"

text \<open>
  \<^verbatim>\<open>word.strip() and any(keyword.lower() in word.lower() for keyword in keywords)\<close>
\<close>

definition keyword_hit :: "string list \<Rightarrow> string \<Rightarrow> bool" where
  "keyword_hit keywords word =
     (strip word \<noteq> [] \<and> list_ex (\<lambda>keyword. contains (lower keyword) (lower word)) keywords)"

text \<open>The first loop: the \<^verbatim>\<open>top\<close> of the first word that hits a start keyword.\<close>

definition table_start_y :: "ocr_word list \<Rightarrow> vendor_pattern \<Rightarrow> int option" where
  "table_start_y ocr_data patterns =
     map_option w_top (find (\<lambda>w. keyword_hit (table_start_keywords patterns) (w_text w)) ocr_data)"

text \<open>
  The second loop. It stops at the first word that hits an end keyword and passes the guard
  \<^verbatim>\<open>table_start_y and tops[i] > table_start_y\<close>; the guard reads \<^verbatim>\<open>table_start_y\<close> for
  its truth value, which is false for \<^verbatim>\<open>None\<close> and for \<open>0\<close>.
\<close>

definition table_end_search :: "ocr_word list \<Rightarrow> vendor_pattern \<Rightarrow> int option \<Rightarrow> int option" where
  "table_end_search ocr_data patterns start =
     map_option w_top
       (find (\<lambda>w. keyword_hit (table_end_keywords patterns) (w_text w) \<and>
                  (case start of None \<Rightarrow> False | Some s \<Rightarrow> s \<noteq> 0 \<and> s < w_top w))
             ocr_data)"

text \<open>
  \<^verbatim>\<open>table_end_y\<close> after the default
  \<^verbatim>\<open>if table_end_y is None: table_end_y = max(tops) + max(heights)\<close>.
\<close>

definition table_end_y :: "ocr_word list \<Rightarrow> vendor_pattern \<Rightarrow> int option \<Rightarrow> exn + int" where
  "table_end_y ocr_data patterns start =
     (case table_end_search ocr_data patterns start of
        Some e \<Rightarrow> Inr e
      | None \<Rightarrow>
          (case py_max (map w_top ocr_data) of
             Inl ex \<Rightarrow> Inl ex
           | Inr mt \<Rightarrow>
               (case py_max (map w_height ocr_data) of
                  Inl ex \<Rightarrow> Inl ex
                | Inr mh \<Rightarrow> Inr (mt + mh))))"

text \<open>The words that the bounds are computed from.\<close>

definition band :: "ocr_word list \<Rightarrow> int \<Rightarrow> int \<Rightarrow> ocr_word list" where
  "band ocr_data s e =
     filter (\<lambda>w. s \<le> w_top w \<and> w_top w \<le> e \<and> strip (w_text w) \<noteq> []) ocr_data"

definition detect_table_region :: "ocr_word list \<Rightarrow> string \<Rightarrow> exn + TableRegion option" where
  "detect_table_region ocr_data vendor_type =
     (case vendor_patterns vendor_type of
        Inl ex \<Rightarrow> Inl ex
      | Inr patterns \<Rightarrow>
          (case table_start_y ocr_data patterns of
             None \<Rightarrow> Inr None
           | Some s \<Rightarrow>
               (case table_end_y ocr_data patterns (Some s) of
                  Inl ex \<Rightarrow> Inl ex
                | Inr e \<Rightarrow>
                    (case py_min (map w_left (band ocr_data s e)) of
                       Inl ex \<Rightarrow> Inl ex
                     | Inr table_left \<Rightarrow>
                         (case py_max (map (\<lambda>w. w_left w + int (w_width w)) (band ocr_data s e)) of
                            Inl ex \<Rightarrow> Inl ex
                          | Inr table_right \<Rightarrow>
                              Inr (Some \<lparr> r_x = table_left, r_y = s,
                                          r_width = table_right - table_left,
                                          r_height = e - s,
                                          r_confidence = 4 / 5 \<rparr>))))))"

section \<open>\<^verbatim>\<open>group_words_by_rows\<close>\<close>

text \<open>
  The loop over \<^verbatim>\<open>words[1:]\<close> with its three variables; the first equation is what follows
  the loop. \<^verbatim>\<open>list.sort\<close> and \<^verbatim>\<open>sorted\<close> are stable, as \<open>sort_key\<close> is.
\<close>

fun group_loop ::
  "int \<Rightarrow> ocr_word list \<Rightarrow> ocr_word list \<Rightarrow> int \<Rightarrow> ocr_word list list \<Rightarrow> ocr_word list list" where
  "group_loop tolerance [] current_row current_y rows =
     (if current_row \<noteq> [] then rows @ [sort_key w_left current_row] else rows)"
| "group_loop tolerance (word # rest) current_row current_y rows =
     (if \<bar>w_top word - current_y\<bar> \<le> tolerance
      then group_loop tolerance rest (current_row @ [word]) current_y rows
      else group_loop tolerance rest [word] (w_top word)
             (if current_row \<noteq> [] then rows @ [sort_key w_left current_row] else rows))"

definition group_words_by_rows :: "ocr_word list \<Rightarrow> int \<Rightarrow> ocr_word list list" where
  "group_words_by_rows words tolerance =
     (case sort_key w_top words of
        [] \<Rightarrow> []
      | w # ws \<Rightarrow> group_loop tolerance ws [w] (w_top w) [])"

section \<open>\<^verbatim>\<open>parse_row_to_line_item\<close>\<close>

definition header_keywords :: "string list" where
  "header_keywords = [''Item'', ''Description'', ''Qty'', ''Price'', ''Total'', ''Part#'', ''Amount'']"

definition row_text :: "ocr_word list \<Rightarrow> string" where
  "row_text row_words = join_space (map w_text row_words)"

definition is_header_row :: "ocr_word list \<Rightarrow> bool" where
  "is_header_row row_words =
     list_ex (\<lambda>keyword. contains (lower keyword) (lower (row_text row_words))) header_keywords"

definition empty_line_item :: LineItem where
  "empty_line_item = \<lparr> item_number = [], description = [], quantity = [], unit_price = [],
                        total_price = [], confidence = 0 \<rparr>"

text \<open>The body of the loop over \<^verbatim>\<open>column_patterns\<close>, for one field.\<close>

definition set_field :: "string \<Rightarrow> string list \<Rightarrow> LineItem \<Rightarrow> LineItem" where
  "set_field field matches line_item =
     (if matches = [] then line_item
      else if field = ''item_number'' then line_item\<lparr>item_number := hd matches\<rparr>
      else if field = ''quantity'' then line_item\<lparr>quantity := hd matches\<rparr>
      else if field = ''unit_price'' then line_item\<lparr>unit_price := strip_dollar (hd matches)\<rparr>
      else if field = ''total_price'' then line_item\<lparr>total_price := strip_dollar (last matches)\<rparr>
      else line_item)"

fun extract_fields :: "(string \<times> string) list \<Rightarrow> string \<Rightarrow> LineItem \<Rightarrow> exn + LineItem" where
  "extract_fields [] text line_item = Inr line_item"
| "extract_fields ((field, pattern) # rest) text line_item =
     (case findall pattern text True of
        Inl ex \<Rightarrow> Inl ex
      | Inr matches \<Rightarrow> extract_fields rest text (set_field field matches line_item))"

text \<open>
  The test on one word of the description loop,
  \<^verbatim>\<open>text and not re.match(r'^\\$?\\d+\\.?\\d*$', text) and not re.match(r'^\\d{1,4}$', text)
  and len(text) > 2\<close>, evaluated left to right.
\<close>

definition is_description_word :: "string \<Rightarrow> exn + bool" where
  "is_description_word text =
     (if text = [] then Inr False
      else case re_match (''^'' @ bb @ ''$?'' @ bb @ ''d+'' @ bb @ ''.?'' @ bb @ ''d*$'') text of
             Inl ex \<Rightarrow> Inl ex
           | Inr True \<Rightarrow> Inr False
           | Inr False \<Rightarrow>
               (case re_match (''^'' @ bb @ ''d{1,4}$'') text of
                  Inl ex \<Rightarrow> Inl ex
                | Inr True \<Rightarrow> Inr False
                | Inr False \<Rightarrow> Inr (2 < length text)))"

fun description_words :: "ocr_word list \<Rightarrow> exn + string list" where
  "description_words [] = Inr []"
| "description_words (word # rest) =
     (case is_description_word (strip (w_text word)) of
        Inl ex \<Rightarrow> Inl ex
      | Inr keep \<Rightarrow>
          (case description_words rest of
             Inl ex \<Rightarrow> Inl ex
           | Inr ds \<Rightarrow> Inr (if keep then strip (w_text word) # ds else ds)))"

definition fields_found :: "LineItem \<Rightarrow> nat" where
  "fields_found line_item =
     length (filter (\<lambda>field. field \<noteq> [])
       [item_number line_item, description line_item, quantity line_item,
        unit_price line_item, total_price line_item])"

text \<open>The result is \<open>Inr None\<close> where the source returns \<^verbatim>\<open>None\<close>.\<close>

definition parse_row_to_line_item :: "ocr_word list \<Rightarrow> vendor_pattern \<Rightarrow> exn + LineItem option" where
  "parse_row_to_line_item row_words patterns =
     (if length row_words < 2 then Inr None
      else if is_header_row row_words then Inr None
      else case extract_fields (column_patterns patterns) (row_text row_words) empty_line_item of
             Inl ex \<Rightarrow> Inl ex
           | Inr line_item \<Rightarrow>
               (case description_words row_words of
                  Inl ex \<Rightarrow> Inl ex
                | Inr ds \<Rightarrow>
                    (let line_item = line_item\<lparr>description := join_space (take 5 ds)\<rparr>
                     in Inr (Some (line_item\<lparr>confidence :=
                                     min (of_nat (fields_found line_item) / 5) 1\<rparr>)))))"

section \<open>\<^verbatim>\<open>extract_line_items_from_region\<close>\<close>

definition in_region :: "TableRegion \<Rightarrow> ocr_word \<Rightarrow> bool" where
  "in_region table_region w =
     (r_x table_region \<le> w_left w \<and> w_left w \<le> r_x table_region + r_width table_region \<and>
      r_y table_region \<le> w_top w \<and> w_top w \<le> r_y table_region + r_height table_region)"

definition table_words :: "ocr_word list \<Rightarrow> TableRegion \<Rightarrow> ocr_word list" where
  "table_words ocr_data table_region =
     filter (\<lambda>w. strip (w_text w) \<noteq> [] \<and> 30 < w_conf w \<and> in_region table_region w) ocr_data"

text \<open>
  \<^verbatim>\<open>if line_item and any([line_item.item_number, line_item.description, line_item.quantity])\<close>
\<close>

definition keeps :: "LineItem \<Rightarrow> bool" where
  "keeps line_item =
     (item_number line_item \<noteq> [] \<or> description line_item \<noteq> [] \<or> quantity line_item \<noteq> [])"

fun line_items_loop :: "vendor_pattern \<Rightarrow> ocr_word list list \<Rightarrow> LineItem list \<Rightarrow> exn + LineItem list" where
  "line_items_loop patterns [] line_items = Inr line_items"
| "line_items_loop patterns (row_words # rows) line_items =
     (case parse_row_to_line_item row_words patterns of
        Inl ex \<Rightarrow> Inl ex
      | Inr None \<Rightarrow> line_items_loop patterns rows line_items
      | Inr (Some line_item) \<Rightarrow>
          if keeps line_item then line_items_loop patterns rows (line_items @ [line_item])
          else line_items_loop patterns rows line_items)"

definition extract_line_items_from_region ::
  "ocr_word list \<Rightarrow> TableRegion option \<Rightarrow> string \<Rightarrow> exn + LineItem list" where
  "extract_line_items_from_region ocr_data table_region vendor_type =
     (case table_region of
        None \<Rightarrow> Inr []
      | Some region \<Rightarrow>
          (case vendor_patterns vendor_type of
             Inl ex \<Rightarrow> Inl ex
           | Inr patterns \<Rightarrow>
               line_items_loop patterns (group_words_by_rows (table_words ocr_data region) 10) []))"

section \<open>\<^verbatim>\<open>process_invoice_with_dynamic_line_items\<close>\<close>

text \<open>
  The result of \<^verbatim>\<open>extract_text_with_coordinates\<close>, which belongs to the recognition
  collaborator: the dictionary \<^verbatim>\<open>{"error": "OCR Error: ..."}\<close> with the text of the
  exception, or the recognised words.
\<close>

datatype extraction = OcrFailed string | OcrData "ocr_word list"

text \<open>
  What the pipeline returns: a dictionary with the key \<^verbatim>\<open>error\<close>, or the result
  dictionary. The page text, the drawing and the time stamp of the result come from
  collaborators and are left out.
\<close>

record invoice_result =
  vendor_type :: string
  table_region :: TableRegion
  line_items_count :: nat
  line_items :: "LineItem list"
  processing_method :: string

datatype outcome = ErrorResult string | Result invoice_result

definition process_invoice_with_dynamic_line_items :: "extraction \<Rightarrow> string \<Rightarrow> exn + outcome" where
  "process_invoice_with_dynamic_line_items extraction_result vendor =
     (case extraction_result of
        OcrFailed msg \<Rightarrow> Inr (ErrorResult (''OCR Error: '' @ msg))
      | OcrData ocr_data \<Rightarrow>
          (case detect_table_region ocr_data vendor of
             Inl ex \<Rightarrow> Inl ex
           | Inr None \<Rightarrow> Inr (ErrorResult ''Could not detect table region in invoice'')
           | Inr (Some region) \<Rightarrow>
               (case extract_line_items_from_region ocr_data (Some region) vendor of
                  Inl ex \<Rightarrow> Inl ex
                | Inr items \<Rightarrow>
                    Inr (Result \<lparr> vendor_type = vendor, table_region = region,
                                  line_items_count = length items, line_items = items,
                                  processing_method =
                                    ''Dynamic Table Detection + Line Item Extraction'' \<rparr>))))"

section \<open>Row invariants\<close>

text \<open>
  What the proofs about \<^verbatim>\<open>group_words_by_rows\<close> carry through the loop: a finished row is
  not empty, is ordered by left edge and lies in a vertical band of height \<open>tol\<close>; of two
  finished rows the earlier lies wholly above the later.
\<close>

definition row_ok :: "int \<Rightarrow> ocr_word list \<Rightarrow> bool" where
  "row_ok tol row =
     (row \<noteq> [] \<and> sorted (map w_left row) \<and>
      (\<exists>a. \<forall>w\<in>set row. a \<le> w_top w \<and> w_top w \<le> a + tol))"

definition above :: "ocr_word list \<Rightarrow> ocr_word list \<Rightarrow> bool" where
  "above r1 r2 = (\<forall>a\<in>set r1. \<forall>b\<in>set r2. w_top a < w_top b)"

definition rows_ok :: "int \<Rightarrow> ocr_word list list \<Rightarrow> bool" where
  "rows_ok tol rows = ((\<forall>row\<in>set rows. row_ok tol row) \<and> sorted_wrt above rows)"

text \<open>The bottom edge of a word.\<close>

definition bottom_edge :: "ocr_word \<Rightarrow> int" where
  "bottom_edge w = w_top w + w_height w"

section \<open>Example inputs\<close>

text \<open>
  A recognised word of width 40, height 12 and confidence 95 with the given text, left edge
  and top edge.
\<close>

definition word_at :: "string \<Rightarrow> int \<Rightarrow> int \<Rightarrow> ocr_word" where
  "word_at t l tp =
     \<lparr> w_text = t, w_left = l, w_top = tp, w_width = 40, w_height = 12, w_conf = 95 \<rparr>"

text \<open>
  The reference scenario: a header row at \<open>y = 50\<close>, the data row at \<open>y = 100\<close> with the
  words at \<open>x = 10, 60, 200, 250, 300\<close>, and \<^verbatim>\<open>Subtotal\<close> at \<open>y = 150\<close>.
\<close>

definition reference_words :: "ocr_word list" where
  "reference_words =
     [word_at ''Item'' 10 50, word_at ''Description'' 60 50, word_at ''Qty'' 200 50,
      word_at ''Price'' 250 50, word_at ''Total'' 300 50,
      word_at ''101'' 10 100, word_at ''WidgetA'' 60 100, word_at ''2'' 200 100,
      word_at ''5.00'' 250 100, word_at ''10.00'' 300 100,
      word_at ''Subtotal'' 10 150]"

text \<open>The row \<^verbatim>\<open>3 Widget $10.00 $30.00\<close>.\<close>

definition two_price_row :: "ocr_word list" where
  "two_price_row =
     [word_at ''3'' 10 100, word_at ''Widget'' 60 100, word_at ''$10.00'' 200 100,
      word_at ''$30.00'' 300 100]"

text \<open>Words out of order, with tops 105, 111, 100 and 50.\<close>

definition jitter_words :: "ocr_word list" where
  "jitter_words =
     [word_at ''beta'' 60 105, word_at ''gamma'' 10 111, word_at ''alpha'' 200 100,
      word_at ''top'' 5 50]"

text \<open>A row that holds both \<^verbatim>\<open>Description\<close> and \<^verbatim>\<open>Qty\<close> among other words.\<close>

definition header_like_row :: "ocr_word list" where
  "header_like_row =
     [word_at ''101'' 10 100, word_at ''Description'' 60 100, word_at ''of'' 120 100,
      word_at ''Qty'' 200 100, word_at ''5.00'' 250 100]"

text \<open>A tall header word above a short word, and no end keyword.\<close>

definition tall_header_words :: "ocr_word list" where
  "tall_header_words =
     [\<lparr> w_text = ''Item'', w_left = 10, w_top = 10, w_width = 40, w_height = 100, w_conf = 95 \<rparr>,
      word_at ''Widget'' 10 50]"

text \<open>A header at the top edge of the page, with \<^verbatim>\<open>Subtotal\<close> below it.\<close>

definition top_edge_words :: "ocr_word list" where
  "top_edge_words =
     [word_at ''Item'' 10 0, word_at ''Widget'' 10 30, word_at ''Subtotal'' 10 50,
      word_at ''Footer'' 10 200]"

text \<open>A header and the end keyword below it.\<close>

definition bounded_words :: "ocr_word list" where
  "bounded_words = [word_at ''Item'' 10 10, word_at ''Subtotal'' 10 50]"

text \<open>Two words of one line, with confidence 30 and 31, between a header and a footer.\<close>

definition widget_30 :: ocr_word where
  "widget_30 =
     \<lparr> w_text = ''Widget'', w_left = 10, w_top = 100, w_width = 40, w_height = 12, w_conf = 30 \<rparr>"

definition gadget_31 :: ocr_word where
  "gadget_31 =
     \<lparr> w_text = ''Gadget'', w_left = 60, w_top = 100, w_width = 40, w_height = 12, w_conf = 31 \<rparr>"

definition mixed_confidence_words :: "ocr_word list" where
  "mixed_confidence_words =
     [word_at ''Item'' 10 50, widget_30, gadget_31, word_at ''Subtotal'' 10 150]"

definition mixed_region :: TableRegion where
  "mixed_region = \<lparr> r_x = 10, r_y = 50, r_width = 90, r_height = 100, r_confidence = 4 / 5 \<rparr>"



section \<open>The region-not-found result\<close>

lemma keyword_hit_contains:
  "keyword_hit keywords word \<Longrightarrow> \<exists>k\<in>set keywords. contains (lower k) (lower word)"
  by (auto simp: keyword_hit_def list_ex_iff)

lemma table_start_y_none:
  assumes "\<forall>w\<in>set ocr_data. \<forall>k\<in>set (table_start_keywords patterns).
             \<not> contains (lower k) (lower (w_text w))"
  shows "table_start_y ocr_data patterns = None"
proof -
  have "find (\<lambda>w. keyword_hit (table_start_keywords patterns) (w_text w)) ocr_data = None"
    using assms by (auto simp: find_None_iff dest: keyword_hit_contains)
  then show ?thesis by (simp add: table_start_y_def)
qed

text \<open>
  C4. When no word's text contains, case-insensitively, any start keyword of the vendor's
  patterns, the pipeline returns the error result with the message
  \<^verbatim>\<open>Could not detect table region in invoice\<close>: it is not a result dictionary, so it
  carries no line items, and it differs from every error result of a failed recognition,
  whose message starts with \<^verbatim>\<open>OCR Error: \<close>.
\<close>

theorem no_start_keyword_region_not_found:
  assumes "vendor_patterns vendor = Inr patterns"
    and "\<forall>w\<in>set ocr_data. \<forall>k\<in>set (table_start_keywords patterns).
           \<not> contains (lower k) (lower (w_text w))"
  shows "process_invoice_with_dynamic_line_items (OcrData ocr_data) vendor =
           Inr (ErrorResult ''Could not detect table region in invoice'') \<and>
         ErrorResult ''Could not detect table region in invoice'' \<noteq>
           ErrorResult (''OCR Error: '' @ msg) \<and>
         ErrorResult ''Could not detect table region in invoice'' \<noteq> Result r"
  using assms table_start_y_none [OF assms(2)]
  by (simp add: process_invoice_with_dynamic_line_items_def detect_table_region_def)

theorem no_start_keyword_region_not_found_witness:
  "vendor_patterns ''generic'' = Inr generic \<and>
   list_all (\<lambda>w. list_all (\<lambda>k. \<not> contains (lower k) (lower (w_text w)))
                     (table_start_keywords generic))
     [word_at ''Invoice'' 10 20, word_at ''Thanks'' 10 150] \<and>
   process_invoice_with_dynamic_line_items
     (OcrData [word_at ''Invoice'' 10 20, word_at ''Thanks'' 10 150]) ''generic'' =
     Inr (ErrorResult ''Could not detect table region in invoice'')"
proof -
  have v: "vendor_patterns ''generic'' = Inr generic" by code_simp
  have l: "list_all (\<lambda>w. list_all (\<lambda>k. \<not> contains (lower k) (lower (w_text w)))
                     (table_start_keywords generic))
     [word_at ''Invoice'' 10 20, word_at ''Thanks'' 10 150]"
    by code_simp
  then have h: "\<forall>w\<in>set [word_at ''Invoice'' 10 20, word_at ''Thanks'' 10 150].
      \<forall>k\<in>set (table_start_keywords generic). \<not> contains (lower k) (lower (w_text w))"
    unfolding list_all_iff .
  from no_start_keyword_region_not_found [OF v h]
  have "process_invoice_with_dynamic_line_items
     (OcrData [word_at ''Invoice'' 10 20, word_at ''Thanks'' 10 150]) ''generic'' =
     Inr (ErrorResult ''Could not detect table region in invoice'')" by (rule conjunct1)
  with v l show ?thesis by (intro conjI)
qed

section \<open>The patterns as written\<close>

text \<open>
  C1. On the reference scenario with the generic patterns the pipeline does not return: the
  data row reaches the classifier, whose \<^verbatim>\<open>unit_price\<close> pattern \<^verbatim>\<open>r"\\$?\\d+\\.\\d{2}"\<close>
  is an escaped backslash followed by \<^verbatim>\<open>$?\<close>, and \<^verbatim>\<open>re.findall\<close> raises
  \<^verbatim>\<open>re.error\<close> (nothing to repeat).
\<close>

theorem reference_input_raises:
  "process_invoice_with_dynamic_line_items (OcrData reference_words) ''generic'' =
     Inl (ReError NothingToRepeat)"
  by code_simp

text \<open>
  C3. On the row \<^verbatim>\<open>3 Widget $10.00 $30.00\<close> the classifier raises \<^verbatim>\<open>re.error\<close> with
  each of the three vendor patterns, so neither price is extracted.
\<close>

theorem two_price_row_raises:
  "parse_row_to_line_item two_price_row generic = Inl (ReError NothingToRepeat) \<and>
   parse_row_to_line_item two_price_row acme = Inl (ReError NothingToRepeat) \<and>
   parse_row_to_line_item two_price_row techsupply = Inl (ReError NothingToRepeat)"
  by code_simp

section \<open>Rejected rows\<close>

text \<open>
  C5. A row of fewer than two words, or one whose text contains a header keyword
  (\<^verbatim>\<open>Item\<close>, \<^verbatim>\<open>Description\<close>, \<^verbatim>\<open>Qty\<close>, \<^verbatim>\<open>Price\<close>, \<^verbatim>\<open>Total\<close>, \<^verbatim>\<open>Part#\<close>,
  \<^verbatim>\<open>Amount\<close>) in any letter case, is returned as \<^verbatim>\<open>None\<close> by the classifier whatever the
  patterns are; the loop over the rows then goes on with the list of line items unchanged
  and raises nothing for it.
\<close>

theorem header_or_sparse_row_dropped:
  assumes "length row_words < 2 \<or> is_header_row row_words"
  shows "parse_row_to_line_item row_words patterns = Inr None \<and>
         line_items_loop patterns (row_words # rows) items = line_items_loop patterns rows items"
  using assms by (auto simp: parse_row_to_line_item_def)

theorem header_or_sparse_row_dropped_witness:
  "is_header_row header_like_row \<and> length [word_at ''WidgetA'' 60 100] < 2 \<and>
   parse_row_to_line_item header_like_row generic = Inr None \<and>
   parse_row_to_line_item [word_at ''WidgetA'' 60 100] generic = Inr None \<and>
   line_items_loop generic [header_like_row, [word_at ''WidgetA'' 60 100]] [] = Inr []"
proof -
  have h: "is_header_row header_like_row" by code_simp
  have l: "length [word_at ''WidgetA'' 60 100] < 2" by simp
  have a: "parse_row_to_line_item header_like_row generic = Inr None \<and>
     line_items_loop generic (header_like_row # [[word_at ''WidgetA'' 60 100]]) [] = line_items_loop generic [[word_at ''WidgetA'' 60 100]] []"
    by (rule header_or_sparse_row_dropped) (simp add: h)
  have b: "parse_row_to_line_item [word_at ''WidgetA'' 60 100] generic = Inr None \<and>
     line_items_loop generic ([word_at ''WidgetA'' 60 100] # []) [] = line_items_loop generic [] []"
    by (rule header_or_sparse_row_dropped) simp
  show ?thesis using h l a b by simp
qed

section \<open>The row grouper\<close>

lemma sort_key_not_Nil: "xs \<noteq> [] \<Longrightarrow> sort_key f xs \<noteq> []"
  by (metis length_0_conv length_sort)

lemma close_row_ok:
  assumes "rows_ok tol rows" and "cur \<noteq> []"
    and "\<forall>w\<in>set cur. y \<le> w_top w \<and> w_top w \<le> y + tol"
    and "\<forall>r\<in>set rows. above r cur"
  shows "rows_ok tol (rows @ [sort_key w_left cur])"
proof -
  have "row_ok tol (sort_key w_left cur)"
    unfolding row_ok_def using assms(2,3) by (auto simp: sort_key_not_Nil)
  moreover have "\<forall>r\<in>set rows. above r (sort_key w_left cur)"
    using assms(4) by (simp add: above_def)
  ultimately show ?thesis
    using assms(1) by (simp add: rows_ok_def sorted_wrt_append)
qed

lemma group_loop_ok:
  assumes "0 \<le> tol" and "sorted (map w_top rest)" and "cur \<noteq> []"
    and "\<forall>w\<in>set cur. y \<le> w_top w \<and> w_top w \<le> y + tol"
    and "\<forall>w\<in>set cur. \<forall>v\<in>set rest. w_top w \<le> w_top v"
    and "rows_ok tol rows" and "\<forall>r\<in>set rows. above r cur"
  shows "rows_ok tol (group_loop tol rest cur y rows)"
  using assms
proof (induction rest arbitrary: cur y rows)
  case Nil
  then show ?case using close_row_ok [of tol rows cur y] by simp
next
  case (Cons v rest)
  obtain w0 where w0: "w0 \<in> set cur" using Cons.prems(3) by (cases cur) auto
  have yv: "y \<le> w_top v" using Cons.prems(4,5) w0 by force
  have srest: "sorted (map w_top rest)" and vrest: "\<forall>u\<in>set rest. w_top v \<le> w_top u"
    using Cons.prems(2) by auto
  show ?case
  proof (cases "\<bar>w_top v - y\<bar> \<le> tol")
    case True
    have band: "\<forall>w\<in>set (cur @ [v]). y \<le> w_top w \<and> w_top w \<le> y + tol"
      using Cons.prems(4) yv True by auto
    have le: "\<forall>w\<in>set (cur @ [v]). \<forall>u\<in>set rest. w_top w \<le> w_top u"
      using Cons.prems(5) vrest by auto
    have ab: "\<forall>r\<in>set rows. above r (cur @ [v])"
    proof
      fix r assume r: "r \<in> set rows"
      then have rc: "above r cur" using Cons.prems(7) by blast
      have "\<forall>a\<in>set r. w_top a < w_top v"
      proof
        fix a assume "a \<in> set r"
        then have "w_top a < w_top w0" using rc w0 by (simp add: above_def)
        moreover have "w_top w0 \<le> w_top v" using Cons.prems(5) w0 by simp
        ultimately show "w_top a < w_top v" by linarith
      qed
      then show "above r (cur @ [v])" using rc by (auto simp: above_def)
    qed
    have "rows_ok tol (group_loop tol rest (cur @ [v]) y rows)"
      by (rule Cons.IH [OF Cons.prems(1) srest _ band le Cons.prems(6) ab]) simp
    then show ?thesis using True by simp
  next
    case False
    then have far: "y + tol < w_top v" using yv by linarith
    let ?rows = "rows @ [sort_key w_left cur]"
    have ok: "rows_ok tol ?rows"
      by (rule close_row_ok [OF Cons.prems(6) Cons.prems(3) Cons.prems(4) Cons.prems(7)])
    have band: "\<forall>w\<in>set [v]. w_top v \<le> w_top w \<and> w_top w \<le> w_top v + tol"
      using Cons.prems(1) by simp
    have le: "\<forall>w\<in>set [v]. \<forall>u\<in>set rest. w_top w \<le> w_top u" using vrest by simp
    have ab: "\<forall>r\<in>set ?rows. above r [v]"
    proof
      fix r assume "r \<in> set ?rows"
      then consider "r \<in> set rows" | "r = sort_key w_left cur" by auto
      then show "above r [v]"
      proof cases
        case 1
        then have rc: "above r cur" using Cons.prems(7) by blast
        have "\<forall>a\<in>set r. w_top a < w_top v"
        proof
          fix a assume "a \<in> set r"
          then have "w_top a < w_top w0" using rc w0 by (simp add: above_def)
          moreover have "w_top w0 \<le> w_top v" using Cons.prems(5) w0 by simp
          ultimately show "w_top a < w_top v" by linarith
        qed
        then show ?thesis by (simp add: above_def)
      next
        case 2
        have "\<forall>a\<in>set cur. w_top a < w_top v" using Cons.prems(4) far by force
        then show ?thesis using 2 by (simp add: above_def)
      qed
    qed
    have "rows_ok tol (group_loop tol rest [v] (w_top v) ?rows)"
      by (rule Cons.IH [OF Cons.prems(1) srest _ band le ok ab]) simp
    then show ?thesis using False Cons.prems(3) by simp
  qed
qed

lemma group_words_by_rows_ok:
  assumes "0 \<le> tol"
  shows "rows_ok tol (group_words_by_rows words tol)"
proof (cases "sort_key w_top words")
  case Nil
  then show ?thesis by (simp add: group_words_by_rows_def rows_ok_def)
next
  case (Cons w ws)
  have s: "sorted (map w_top (w # ws))" using Cons sorted_sort_key [of w_top words] by simp
  have "rows_ok tol (group_loop tol ws [w] (w_top w) [])"
  proof (rule group_loop_ok [OF assms])
    show "sorted (map w_top ws)" using s by simp
    show "[w] \<noteq> []" by simp
    show "\<forall>u\<in>set [w]. w_top w \<le> w_top u \<and> w_top u \<le> w_top w + tol" using assms by simp
    show "\<forall>u\<in>set [w]. \<forall>v\<in>set ws. w_top u \<le> w_top v" using s by simp
    show "rows_ok tol []" by (simp add: rows_ok_def)
    show "\<forall>r\<in>set []. above r [w]" by simp
  qed
  then show ?thesis using Cons by (simp add: group_words_by_rows_def)
qed

lemma group_loop_members:
  "\<Union> (set ` set (group_loop tol rest cur y rows)) = \<Union> (set ` set rows) \<union> set cur \<union> set rest"
  by (induction rest arbitrary: cur y rows) auto

lemma group_words_by_rows_members:
  "\<Union> (set ` set (group_words_by_rows words tol)) = set words"
proof (cases "sort_key w_top words")
  case Nil
  then have "words = []" by (metis length_0_conv length_sort)
  then show ?thesis by (simp add: group_words_by_rows_def)
next
  case (Cons w ws)
  have "set words = set (w # ws)" using Cons by (metis set_sort)
  then show ?thesis using Cons by (simp add: group_words_by_rows_def group_loop_members)
qed

text \<open>
  C6. Every row that \<^verbatim>\<open>group_words_by_rows\<close> emits with tolerance 10 is not empty, each of
  its words has a top within 10 units of the top of the row's first word, and its words are
  in ascending order of left edge; the rows are in ascending order of the top of their first
  word.
\<close>

theorem rows_grouped_and_ordered:
  "(\<forall>row\<in>set (group_words_by_rows words 10).
      row \<noteq> [] \<and> (\<forall>w\<in>set row. \<bar>w_top w - w_top (hd row)\<bar> \<le> 10) \<and> sorted (map w_left row)) \<and>
   sorted (map (\<lambda>row. w_top (hd row)) (group_words_by_rows words 10))"
proof -
  let ?rows = "group_words_by_rows words 10"
  have ok: "rows_ok 10 ?rows" by (rule group_words_by_rows_ok) simp
  have rows: "\<forall>row\<in>set ?rows. row_ok 10 row" and sep: "sorted_wrt above ?rows"
    using ok by (simp_all add: rows_ok_def)
  have a: "\<forall>row\<in>set ?rows.
      row \<noteq> [] \<and> (\<forall>w\<in>set row. \<bar>w_top w - w_top (hd row)\<bar> \<le> 10) \<and> sorted (map w_left row)"
  proof
    fix row assume "row \<in> set ?rows"
    then have r: "row_ok 10 row" using rows by blast
    then obtain a where a: "\<forall>w\<in>set row. a \<le> w_top w \<and> w_top w \<le> a + 10"
      by (auto simp: row_ok_def)
    have ne: "row \<noteq> []" using r by (simp add: row_ok_def)
    then have "hd row \<in> set row" by simp
    then have h: "a \<le> w_top (hd row) \<and> w_top (hd row) \<le> a + 10" using a by blast
    have "\<forall>w\<in>set row. \<bar>w_top w - w_top (hd row)\<bar> \<le> 10"
    proof
      fix w assume "w \<in> set row"
      then have "a \<le> w_top w \<and> w_top w \<le> a + 10" using a by blast
      then show "\<bar>w_top w - w_top (hd row)\<bar> \<le> 10" using h by linarith
    qed
    then show "row \<noteq> [] \<and> (\<forall>w\<in>set row. \<bar>w_top w - w_top (hd row)\<bar> \<le> 10) \<and> sorted (map w_left row)"
      using ne r by (simp add: row_ok_def)
  qed
  have "sorted_wrt (\<lambda>r1 r2. w_top (hd r1) \<le> w_top (hd r2)) ?rows"
  proof (rule sorted_wrt_mono_rel [OF _ sep])
    fix r1 r2 assume "r1 \<in> set ?rows" "r2 \<in> set ?rows" "above r1 r2"
    moreover from this have "hd r1 \<in> set r1" "hd r2 \<in> set r2" using a by simp_all
    ultimately show "w_top (hd r1) \<le> w_top (hd r2)" by (force simp: above_def)
  qed
  then have "sorted (map (\<lambda>row. w_top (hd row)) ?rows)" by (simp add: sorted_map)
  then show ?thesis using a by blast
qed


theorem rows_grouped_and_ordered_witness:
  "map (map w_text) (group_words_by_rows jitter_words 10) =
     [[''top''], [''beta'', ''alpha''], [''gamma'']] \<and>
   list_all (\<lambda>row. row \<noteq> [] \<and> list_all (\<lambda>w. \<bar>w_top w - w_top (hd row)\<bar> \<le> 10) row \<and>
                    sorted (map w_left row))
     (group_words_by_rows jitter_words 10) \<and>
   sorted (map (\<lambda>row. w_top (hd row)) (group_words_by_rows jitter_words 10))"
proof -
  have e: "map (map w_text) (group_words_by_rows jitter_words 10) =
     [[''top''], [''beta'', ''alpha''], [''gamma'']]"
    by code_simp
  from rows_grouped_and_ordered [of jitter_words]
  have "list_all (\<lambda>row. row \<noteq> [] \<and> list_all (\<lambda>w. \<bar>w_top w - w_top (hd row)\<bar> \<le> 10) row \<and>
                    sorted (map w_left row))
     (group_words_by_rows jitter_words 10) \<and>
   sorted (map (\<lambda>row. w_top (hd row)) (group_words_by_rows jitter_words 10))"
    unfolding list_all_iff .
  with e show ?thesis by (rule conjI)
qed

section \<open>The confidence filter\<close>

lemma in_table_words:
  "w \<in> set (table_words ocr_data region) \<Longrightarrow> strip (w_text w) \<noteq> [] \<and> 30 < w_conf w"
  by (simp add: table_words_def)

text \<open>
  C8. A word that appears in a row passed to the classifier has non-blank text and a
  confidence above 30; a word of confidence exactly 30 is not among the words of the table
  and is in no row.
\<close>

theorem grouped_words_pass_filter:
  "((\<exists>row\<in>set (group_words_by_rows (table_words ocr_data region) 10). w \<in> set row) \<longrightarrow>
      strip (w_text w) \<noteq> [] \<and> 30 < w_conf w) \<and>
   (w_conf w = 30 \<longrightarrow>
      w \<notin> set (table_words ocr_data region) \<and>
      \<not> (\<exists>row\<in>set (group_words_by_rows (table_words ocr_data region) 10). w \<in> set row))"
proof -
  have m: "(\<exists>row\<in>set (group_words_by_rows (table_words ocr_data region) 10). w \<in> set row) =
           (w \<in> set (table_words ocr_data region))"
    using group_words_by_rows_members [of "table_words ocr_data region" 10] by blast
  show ?thesis unfolding m using in_table_words [of w ocr_data region] by auto
qed

theorem grouped_words_pass_filter_witness:
  "detect_table_region mixed_confidence_words ''generic'' = Inr (Some mixed_region) \<and>
   (\<exists>row\<in>set (group_words_by_rows (table_words mixed_confidence_words mixed_region) 10).
      gadget_31 \<in> set row) \<and>
   strip (w_text gadget_31) \<noteq> [] \<and> 30 < w_conf gadget_31 \<and>
   w_conf widget_30 = 30 \<and>
   widget_30 \<notin> set (table_words mixed_confidence_words mixed_region) \<and>
   \<not> (\<exists>row\<in>set (group_words_by_rows (table_words mixed_confidence_words mixed_region) 10).
      widget_30 \<in> set row)"
proof -
  have d: "detect_table_region mixed_confidence_words ''generic'' = Inr (Some mixed_region)"
    by code_simp
  have g: "\<exists>row\<in>set (group_words_by_rows (table_words mixed_confidence_words mixed_region) 10).
      gadget_31 \<in> set row"
    by code_simp
  have c: "w_conf widget_30 = 30" by (simp add: widget_30_def)
  show ?thesis
    using d g c
      grouped_words_pass_filter [of mixed_confidence_words mixed_region gadget_31]
      grouped_words_pass_filter [of mixed_confidence_words mixed_region widget_30]
    by blast
qed

section \<open>The vertical bounds of the table\<close>

lemma py_max_Max: "vs \<noteq> [] \<Longrightarrow> py_max vs = Inr (Max (set vs))"
proof (cases vs)
  case Nil
  assume "vs \<noteq> []"
  with Nil show ?thesis by simp
next
  case (Cons v rest)
  then show ?thesis using Max.set_eq_fold [of v rest] by simp
qed

lemma py_min_Min: "vs \<noteq> [] \<Longrightarrow> py_min vs = Inr (Min (set vs))"
proof (cases vs)
  case Nil
  assume "vs \<noteq> []"
  with Nil show ?thesis by simp
next
  case (Cons v rest)
  then show ?thesis using Min.set_eq_fold [of v rest] by simp
qed

lemma table_start_y_nonempty: "table_start_y ocr_data patterns = Some s \<Longrightarrow> ocr_data \<noteq> []"
  by (auto simp: table_start_y_def)

lemma table_end_y_default:
  assumes "ocr_data \<noteq> []" and "table_end_search ocr_data patterns start = None"
  shows "table_end_y ocr_data patterns start =
           Inr (Max (set (map w_top ocr_data)) + Max (set (map w_height ocr_data)))"
  using assms by (simp add: table_end_y_def py_max_Max)

lemma band_member:
  "w \<in> set (band ocr_data s e) = (w \<in> set ocr_data \<and> s \<le> w_top w \<and> w_top w \<le> e \<and> strip (w_text w) \<noteq> [])"
  by (auto simp: band_def)

lemma detect_table_region_Some:
  assumes "detect_table_region ocr_data vendor = Inr (Some region)"
  obtains patterns s e where
    "vendor_patterns vendor = Inr patterns"
    "table_start_y ocr_data patterns = Some s"
    "table_end_y ocr_data patterns (Some s) = Inr e"
    "band ocr_data s e \<noteq> []"
    "r_x region = Min (set (map w_left (band ocr_data s e)))"
    "r_y region = s"
    "r_width region =
       Max (set (map (\<lambda>w. w_left w + int (w_width w)) (band ocr_data s e))) - r_x region"
    "r_height region = e - s"
proof -
  from assms obtain patterns where p: "vendor_patterns vendor = Inr patterns"
    by (auto simp: detect_table_region_def split: sum.splits)
  from assms p obtain s where s: "table_start_y ocr_data patterns = Some s"
    by (auto simp: detect_table_region_def split: sum.splits option.splits)
  from assms p s obtain e where e: "table_end_y ocr_data patterns (Some s) = Inr e"
    by (auto simp: detect_table_region_def split: sum.splits)
  have ne: "band ocr_data s e \<noteq> []"
    using assms p s e by (auto simp: detect_table_region_def split: sum.splits)
  have "region = \<lparr> r_x = Min (set (map w_left (band ocr_data s e))), r_y = s,
           r_width = Max (set (map (\<lambda>w. w_left w + int (w_width w)) (band ocr_data s e))) -
                     Min (set (map w_left (band ocr_data s e))),
           r_height = e - s, r_confidence = 4 / 5 \<rparr>"
    using assms p s e ne by (simp add: detect_table_region_def py_max_Max py_min_Min)
  then show ?thesis using that [OF p s e ne] by simp
qed

text \<open>
  C2 as amended. When a start keyword is found and the search for an end keyword sets no
  \<^verbatim>\<open>table_end_y\<close>, \<^verbatim>\<open>table_end_y\<close> becomes \<^verbatim>\<open>max(tops) + max(heights)\<close>: the largest
  top plus the largest height, each maximum taken on its own over all entries. No word's
  bottom edge lies below it.
\<close>

theorem table_end_defaults_to_max_top_plus_max_height:
  assumes "table_start_y ocr_data patterns = Some s"
    and "table_end_search ocr_data patterns (Some s) = None"
  shows "table_end_y ocr_data patterns (Some s) =
           Inr (Max (set (map w_top ocr_data)) + Max (set (map w_height ocr_data))) \<and>
         (\<forall>w\<in>set ocr_data.
            bottom_edge w \<le> Max (set (map w_top ocr_data)) + Max (set (map w_height ocr_data)))"
proof -
  have e: "table_end_y ocr_data patterns (Some s) =
           Inr (Max (set (map w_top ocr_data)) + Max (set (map w_height ocr_data)))"
    by (rule table_end_y_default [OF table_start_y_nonempty [OF assms(1)] assms(2)])
  have "\<forall>w\<in>set ocr_data.
            bottom_edge w \<le> Max (set (map w_top ocr_data)) + Max (set (map w_height ocr_data))"
  proof
    fix w assume w: "w \<in> set ocr_data"
    have "w_top w \<le> Max (set (map w_top ocr_data))" using w by simp
    moreover have "w_height w \<le> Max (set (map w_height ocr_data))" using w by simp
    ultimately show "bottom_edge w \<le> Max (set (map w_top ocr_data)) + Max (set (map w_height ocr_data))"
      unfolding bottom_edge_def by linarith
  qed
  with e show ?thesis by blast
qed

theorem table_end_defaults_to_max_top_plus_max_height_witness:
  "table_start_y tall_header_words generic = Some 10 \<and>
   table_end_search tall_header_words generic (Some 10) = None \<and>
   table_end_y tall_header_words generic (Some 10) = Inr 150"
proof -
  have s: "table_start_y tall_header_words generic = Some 10" by code_simp
  have n: "table_end_search tall_header_words generic (Some 10) = None" by code_simp
  have m: "Max (set (map w_top tall_header_words)) + Max (set (map w_height tall_header_words)) = 150"
    by (simp add: tall_header_words_def word_at_def)
  show ?thesis
    using s n m table_end_defaults_to_max_top_plus_max_height [OF s n] by simp
qed

text \<open>
  C2 as stated fails: for a header word of height 100 at top 10 and a word of height 12 at
  top 50, \<^verbatim>\<open>table_end_y\<close> is \<open>50 + 100 = 150\<close>, while the largest bottom edge is
  \<open>10 + 100 = 110\<close>.
\<close>

theorem table_end_is_not_max_bottom_edge:
  "table_start_y tall_header_words generic = Some 10 \<and>
   table_end_search tall_header_words generic (Some 10) = None \<and>
   table_end_y tall_header_words generic (Some 10) = Inr 150 \<and>
   py_max (map bottom_edge tall_header_words) = Inr 110"
  by code_simp

text \<open>
  C10. When the first word that hits a start keyword has top 0, the search for an end
  keyword finds nothing, whatever words follow, and \<^verbatim>\<open>table_end_y\<close> takes its default
  \<^verbatim>\<open>max(tops) + max(heights)\<close>.
\<close>

theorem start_at_zero_ignores_end_keywords:
  assumes "table_start_y ocr_data patterns = Some 0"
  shows "table_end_search ocr_data patterns (Some 0) = None \<and>
         table_end_y ocr_data patterns (Some 0) =
           Inr (Max (set (map w_top ocr_data)) + Max (set (map w_height ocr_data)))"
proof -
  have n: "table_end_search ocr_data patterns (Some 0) = None"
    by (simp add: table_end_search_def find_None_iff)
  show ?thesis using n table_end_y_default [OF table_start_y_nonempty [OF assms] n] by simp
qed



theorem start_at_zero_ignores_end_keywords_witness:
  "table_start_y top_edge_words generic = Some 0 \<and>
   keyword_hit (table_end_keywords generic) (w_text (top_edge_words ! 2)) \<and>
   0 < w_top (top_edge_words ! 2) \<and>
   table_end_search top_edge_words generic (Some 0) = None \<and>
   table_end_y top_edge_words generic (Some 0) = Inr 212"
proof -
  have s: "table_start_y top_edge_words generic = Some 0" by code_simp
  have k: "keyword_hit (table_end_keywords generic) (w_text (top_edge_words ! 2)) \<and>
   0 < w_top (top_edge_words ! 2)" by code_simp
  have m: "Max (set (map w_top top_edge_words)) + Max (set (map w_height top_edge_words)) = 212"
    by (simp add: top_edge_words_def word_at_def)
  show ?thesis using s k m start_at_zero_ignores_end_keywords [OF s] by simp
qed

section \<open>The detected region\<close>

text \<open>
  C7 as amended. A region returned by the detector has non-negative width and non-negative
  height. Every non-blank word whose top lies in the band from \<open>r_y\<close> to \<open>r_y + r_height\<close>
  (the words that the bounds are computed from) has its left and right edges inside the
  region; and when the search for an end keyword has set no \<^verbatim>\<open>table_end_y\<close>, so that the
  default bottom applies, its bottom edge lies inside the region too.
\<close>

theorem region_bounds:
  assumes "detect_table_region ocr_data vendor = Inr (Some region)"
    and "vendor_patterns vendor = Inr patterns"
  shows "0 \<le> r_width region \<and> 0 \<le> r_height region \<and>
         (\<forall>w\<in>set ocr_data.
            strip (w_text w) \<noteq> [] \<and> r_y region \<le> w_top w \<and>
            w_top w \<le> r_y region + r_height region
            \<longrightarrow> r_x region \<le> w_left w \<and>
                w_left w + int (w_width w) \<le> r_x region + r_width region \<and>
                (table_end_search ocr_data patterns (Some (r_y region)) = None
                 \<longrightarrow> bottom_edge w \<le> r_y region + r_height region))"
proof -
  from assms(1) obtain patterns' s e where
    p': "vendor_patterns vendor = Inr patterns'"
    and st: "table_start_y ocr_data patterns' = Some s"
    and en: "table_end_y ocr_data patterns' (Some s) = Inr e"
    and ne: "band ocr_data s e \<noteq> []"
    and x: "r_x region = Min (set (map w_left (band ocr_data s e)))"
    and y: "r_y region = s"
    and wd: "r_width region =
       Max (set (map (\<lambda>w. w_left w + int (w_width w)) (band ocr_data s e))) - r_x region"
    and ht: "r_height region = e - s"
    by (rule detect_table_region_Some)
  have pp: "patterns' = patterns" using p' assms(2) by simp
  let ?B = "band ocr_data s e"
  have left: "\<forall>w\<in>set ?B. r_x region \<le> w_left w" unfolding x by simp
  have right: "\<forall>w\<in>set ?B. w_left w + int (w_width w) \<le> r_x region + r_width region"
    unfolding wd by simp
  obtain w0 where w0: "w0 \<in> set ?B" using ne by (cases ?B) auto
  then have w0': "s \<le> w_top w0" "w_top w0 \<le> e"
    by (simp_all add: band_member)
  have "r_x region \<le> w_left w0" and "w_left w0 + int (w_width w0) \<le> r_x region + r_width region"
    using left right w0 by blast+
  then have width: "0 \<le> r_width region" by linarith
  have height: "0 \<le> r_height region" using w0' ht by linarith
  have bottom: "bottom_edge w \<le> r_y region + r_height region"
    if w: "w \<in> set ocr_data"
      and n: "table_end_search ocr_data patterns (Some (r_y region)) = None" for w
  proof -
    have "ocr_data \<noteq> []" using w by auto
    then have "table_end_y ocr_data patterns (Some s) =
        Inr (Max (set (map w_top ocr_data)) + Max (set (map w_height ocr_data)))"
      using n y by (simp add: table_end_y_default)
    then have e: "e = Max (set (map w_top ocr_data)) + Max (set (map w_height ocr_data))"
      using en pp by simp
    have "w_top w \<le> Max (set (map w_top ocr_data))" using w by simp
    moreover have "w_height w \<le> Max (set (map w_height ocr_data))" using w by simp
    ultimately have "bottom_edge w \<le> e" unfolding e bottom_edge_def by linarith
    then show ?thesis using y ht by simp
  qed
  have "\<forall>w\<in>set ocr_data.
            strip (w_text w) \<noteq> [] \<and> r_y region \<le> w_top w \<and>
            w_top w \<le> r_y region + r_height region
            \<longrightarrow> r_x region \<le> w_left w \<and>
                w_left w + int (w_width w) \<le> r_x region + r_width region \<and>
                (table_end_search ocr_data patterns (Some (r_y region)) = None
                 \<longrightarrow> bottom_edge w \<le> r_y region + r_height region)"
  proof (intro ballI impI)
    fix w assume w: "w \<in> set ocr_data"
      and h: "strip (w_text w) \<noteq> [] \<and> r_y region \<le> w_top w \<and>
              w_top w \<le> r_y region + r_height region"
    then have "w \<in> set ?B" using y ht by (simp add: band_member)
    then show "r_x region \<le> w_left w \<and>
                w_left w + int (w_width w) \<le> r_x region + r_width region \<and>
                (table_end_search ocr_data patterns (Some (r_y region)) = None
                 \<longrightarrow> bottom_edge w \<le> r_y region + r_height region)"
      using left right bottom [OF w] by blast
  qed
  then show ?thesis using width height by blast
qed

theorem region_bounds_witness:
  "detect_table_region tall_header_words ''generic'' =
     Inr (Some \<lparr> r_x = 10, r_y = 10, r_width = 40, r_height = 140, r_confidence = 4 / 5 \<rparr>) \<and>
   vendor_patterns ''generic'' = Inr generic \<and>
   table_end_search tall_header_words generic (Some 10) = None \<and>
   band tall_header_words 10 150 = tall_header_words \<and>
   list_all (\<lambda>w. 10 \<le> w_left w \<and> w_left w + int (w_width w) \<le> 50 \<and> bottom_edge w \<le> 150)
     tall_header_words"
proof -
  have d: "detect_table_region tall_header_words ''generic'' =
     Inr (Some \<lparr> r_x = 10, r_y = 10, r_width = 40, r_height = 140, r_confidence = 4 / 5 \<rparr>)"
    by code_simp
  have v: "vendor_patterns ''generic'' = Inr generic" by code_simp
  have n: "table_end_search tall_header_words generic (Some 10) = None" by code_simp
  have b: "band tall_header_words 10 150 = tall_header_words" by code_simp
  have m: "\<forall>w\<in>set tall_header_words.
             strip (w_text w) \<noteq> [] \<and> (10::int) \<le> w_top w \<and> w_top w \<le> 150"
    using b band_member [of _ tall_header_words 10 150] by auto
  have "list_all (\<lambda>w. 10 \<le> w_left w \<and> w_left w + int (w_width w) \<le> 50 \<and> bottom_edge w \<le> 150)
     tall_header_words"
    using region_bounds [OF d v] n m by (simp add: list_all_iff)
  with d v n b show ?thesis by (intro conjI)
qed

text \<open>
  C7 as stated fails: with \<^verbatim>\<open>Item\<close> at top 10 and \<^verbatim>\<open>Subtotal\<close> at top 50 the region
  spans the tops 10 to 50; \<^verbatim>\<open>Subtotal\<close> lies in that band and takes part in the
  horizontal bounds, and its bottom edge 62 is below the region.
\<close>

theorem region_misses_bottom_of_end_word:
  "detect_table_region bounded_words ''generic'' =
     Inr (Some \<lparr> r_x = 10, r_y = 10, r_width = 40, r_height = 40, r_confidence = 4 / 5 \<rparr>) \<and>
   bounded_words ! 1 = word_at ''Subtotal'' 10 50 \<and>
   strip (w_text (word_at ''Subtotal'' 10 50)) \<noteq> [] \<and>
   10 \<le> w_top (word_at ''Subtotal'' 10 50) \<and> w_top (word_at ''Subtotal'' 10 50) \<le> 10 + 40 \<and>
   \<not> bottom_edge (word_at ''Subtotal'' 10 50) \<le> 10 + 40"
  by code_simp


section \<open>What a run can return\<close>

text \<open>
  The pattern of the description test is malformed like the \<^verbatim>\<open>unit_price\<close> pattern, so
  the classifier raises on every row that it does not reject and whose first word is not
  blank. The rows of a run hold non-blank words only; a run that returns a result
  dictionary therefore returns it with no line items.
\<close>

lemma description_pattern_malformed:
  "compile (''^'' @ bb @ ''$?'' @ bb @ ''d+'' @ bb @ ''.?'' @ bb @ ''d*$'') =
     Inl (ReError NothingToRepeat)"
  by code_simp

lemma is_description_word_raises:
  "t \<noteq> [] \<Longrightarrow> is_description_word t = Inl (ReError NothingToRepeat)"
  using description_pattern_malformed by (simp add: is_description_word_def re_match_def)

lemma description_words_raises:
  "strip (w_text w) \<noteq> [] \<Longrightarrow> description_words (w # rest) = Inl (ReError NothingToRepeat)"
  by (simp add: is_description_word_raises)

lemma parse_row_never_item:
  assumes "row_words \<noteq> []" and "strip (w_text (hd row_words)) \<noteq> []"
  shows "parse_row_to_line_item row_words patterns \<noteq> Inr (Some line_item)"
proof -
  obtain w rest where r: "row_words = w # rest" using assms(1) by (cases row_words) auto
  have "description_words row_words = Inl (ReError NothingToRepeat)"
    using assms(2) unfolding r by (simp add: is_description_word_raises)
  then show ?thesis
    by (auto simp: parse_row_to_line_item_def split: sum.splits)
qed

lemma line_items_loop_no_items:
  assumes "\<forall>row\<in>set rows. row \<noteq> [] \<and> (\<forall>w\<in>set row. strip (w_text w) \<noteq> [])"
    and "line_items_loop patterns rows items = Inr out"
  shows "out = items"
  using assms
proof (induction rows arbitrary: items)
  case Nil
  then show ?case by simp
next
  case (Cons row rows)
  have "row \<noteq> []" and "strip (w_text (hd row)) \<noteq> []" using Cons.prems(1) by auto
  then have n: "\<And>li. parse_row_to_line_item row patterns \<noteq> Inr (Some li)"
    by (rule parse_row_never_item)
  have "line_items_loop patterns rows items = Inr out"
    using Cons.prems(2) n by (auto split: sum.splits option.splits)
  then show ?case using Cons.IH Cons.prems(1) by simp
qed

lemma extract_line_items_no_items:
  assumes "extract_line_items_from_region ocr_data region vendor = Inr items"
  shows "items = []"
proof (cases region)
  case None
  then show ?thesis using assms by (simp add: extract_line_items_from_region_def)
next
  case (Some r)
  let ?rows = "group_words_by_rows (table_words ocr_data r) 10"
  from assms Some obtain patterns where
    l: "line_items_loop patterns ?rows [] = Inr items"
    by (auto simp: extract_line_items_from_region_def split: sum.splits)
  have "rows_ok 10 ?rows" by (rule group_words_by_rows_ok) simp
  then have ne: "\<forall>row\<in>set ?rows. row \<noteq> []" by (simp add: rows_ok_def row_ok_def)
  have "\<forall>row\<in>set ?rows. \<forall>w\<in>set row. strip (w_text w) \<noteq> []"
  proof (intro ballI)
    fix row w assume "row \<in> set ?rows" "w \<in> set row"
    then have "w \<in> \<Union> (set ` set ?rows)" by blast
    then have "w \<in> set (table_words ocr_data r)"
      by (simp only: group_words_by_rows_members)
    then show "strip (w_text w) \<noteq> []" by (simp add: in_table_words)
  qed
  with ne have "\<forall>row\<in>set ?rows. row \<noteq> [] \<and> (\<forall>w\<in>set row. strip (w_text w) \<noteq> [])" by blast
  then show ?thesis using l by (rule line_items_loop_no_items)
qed

lemma pipeline_returns_no_line_items:
  assumes "process_invoice_with_dynamic_line_items extraction_result vendor = Inr (Result r)"
  shows "line_items r = []"
proof -
  from assms obtain ocr_data where o: "extraction_result = OcrData ocr_data"
    by (cases extraction_result) (simp_all add: process_invoice_with_dynamic_line_items_def)
  from assms o obtain region where
    d: "detect_table_region ocr_data vendor = Inr (Some region)"
    by (auto simp: process_invoice_with_dynamic_line_items_def split: sum.splits option.splits)
  from assms o d obtain items where
    e: "extract_line_items_from_region ocr_data (Some region) vendor = Inr items"
    and r: "line_items r = items"
    by (auto simp: process_invoice_with_dynamic_line_items_def split: sum.splits)
  show ?thesis using extract_line_items_no_items [OF e] r by simp
qed


end
